theory Spec2Isabelle
  imports Main
begin

section \<open>Errors raised by the two tables\<close>

text \<open>
  Every Python exception that the two classes can raise is a value of this type:
  the documented ones (\<open>KeyError\<close>, \<open>FullError\<close>) and the ones raised by the
  interpreter itself when a statement is applied to the wrong kind of object
  (\<open>TypeError\<close>: subscripting \<open>None\<close>, an \<open>int\<close>, or a tuple with a string),
  reads beyond the end of a list or array (\<open>IndexError\<close>) and a modulus of zero
  (\<open>ZeroDivisionError\<close>).
\<close>

datatype error = KeyError | FullError | TypeError | IndexError | ZeroDivisionError

section \<open>The trie table: \<open>infinite_hash_table.py\<close>\<close>

subsection \<open>Data\<close>

definition TABLE_SIZE :: nat where
  "TABLE_SIZE = 27"

text \<open>
  Modelled from the spec: the fixed array collaborator \<open>ArrayR\<close>, whose module
  \<open>data_structures.referential_array\<close> is not among the sources. It is an indexable
  array of fixed length, created with every slot \<open>None\<close>, and a node of the trie
  carries the per-node occupancy counter, the attribute \<open>count\<close> that
  \<open>__setitem__\<close> and \<open>__delitem__\<close> read and write on it, initially 0.

  A slot is \<open>None\<close>, a tuple \<open>(key, value)\<close>, or a tuple \<open>(prefix, ArrayR)\<close>;
  \<open>isinstance(slot[1], ArrayR)\<close> tells the last two apart. Keys are strings and values
  are Python ints (the case in which the \<open>isinstance(current_table, int)\<close> test of
  \<open>get_location\<close> applies).
\<close>

datatype node = ArrayR (array: "slot list") (occupancy: int)
  and slot = Empty | Leaf string int | Inner string node

definition new_ArrayR :: "nat \<Rightarrow> node" where
  "new_ArrayR n = ArrayR (replicate n Empty) 0"

record iht =
  table :: node
  level :: nat
  count :: int

definition iht_init :: iht where
  "iht_init = \<lparr>table = new_ArrayR TABLE_SIZE, level = 0, count = 0\<rparr>"

text \<open>What the variable \<open>current\<close> of \<open>__getitem__\<close> can hold: a value or a node.\<close>

datatype obj = Val int | Tab node

subsection \<open>\<open>hash\<close>\<close>

text \<open>\<open>hash\<close> reads \<open>self.level\<close>; the model passes the level as an argument.\<close>

definition hash :: "nat \<Rightarrow> string \<Rightarrow> nat" where
  "hash lv key = (if lv < length key then of_char (key ! lv) mod (TABLE_SIZE - 1)
                  else TABLE_SIZE - 1)"

subsection \<open>\<open>get_location\<close>, \<open>__getitem__\<close>, \<open>__contains__\<close>\<close>

text \<open>
  The loop of \<open>get_location\<close>. The result is the outcome and the value of
  \<open>self.level\<close> when the loop is left. The test \<open>slot[0] is not key\<close> compares object
  identity; the model reads it as inequality of the two strings (two equal keys are the
  same object, as for interned strings). Walking into a leaf with another key makes
  \<open>current_table\<close> that leaf's value, an int, and raises \<open>KeyError\<close> with the level
  already incremented.
\<close>

function get_location_loop :: "nat \<Rightarrow> string \<Rightarrow> node \<Rightarrow> nat list \<Rightarrow> (error + nat list) \<times> nat" where
  "get_location_loop lv key (ArrayR xs c) temp =
     (let pos = hash lv key in
      if length xs \<le> pos then (Inl IndexError, lv)
      else case xs ! pos of
          Empty \<Rightarrow> (Inr (temp @ [pos]), lv)
        | Leaf k v \<Rightarrow> if k = key then (Inr (temp @ [pos]), lv) else (Inl KeyError, lv + 1)
        | Inner tag child \<Rightarrow>
            if tag = key then (Inr (temp @ [pos]), lv)
            else get_location_loop (lv + 1) key child (temp @ [pos]))"
  by pat_completeness auto

lemma size_nth_slot: "i < length xs \<Longrightarrow> size (xs ! i) \<le> size_list size xs"
  by (rule size_list_estimation') (auto simp: nth_mem)

lemma size_child:
  "\<not> length xs \<le> i \<Longrightarrow> xs ! i = Inner tag child \<Longrightarrow> size child < size (ArrayR xs c)"
  using size_nth_slot [of i xs] by simp

termination get_location_loop
  by (relation "measure (\<lambda>(lv, key, nd, temp). size nd)") (auto simp: size_child simp del: node.size)

definition get_location :: "string \<Rightarrow> iht \<Rightarrow> (error + nat list) \<times> iht" where
  "get_location key t =
     (case get_location_loop 0 key (table t) [] of
        (Inl e, lv) \<Rightarrow> (Inl e, t\<lparr>level := lv\<rparr>)
      | (Inr temp, lv) \<Rightarrow> (Inr temp, t\<lparr>level := 0\<rparr>))"

text \<open>
  The loop \<open>for index in location: current = current[index][1]\<close>. Subscripting an int
  or \<open>None\<close> raises \<open>TypeError\<close>.
\<close>

fun follow :: "obj \<Rightarrow> nat list \<Rightarrow> error + obj" where
  "follow current [] = Inr current"
| "follow (Val v) (index # location) = Inl TypeError"
| "follow (Tab (ArrayR xs c)) (index # location) =
     (if length xs \<le> index then Inl IndexError
      else case xs ! index of
          Empty \<Rightarrow> Inl TypeError
        | Leaf k v \<Rightarrow> follow (Val v) location
        | Inner tag child \<Rightarrow> follow (Tab child) location)"

definition getitem :: "string \<Rightarrow> iht \<Rightarrow> (error + obj) \<times> iht" where
  "getitem key t =
     (case get_location key t of
        (Inl e, t') \<Rightarrow> (Inl e, t')
      | (Inr location, t') \<Rightarrow> (follow (Tab (table t')) location, t'))"

text \<open>\<open>__contains__\<close> catches \<open>KeyError\<close> only; any other exception propagates.\<close>

definition contains :: "string \<Rightarrow> iht \<Rightarrow> (error + bool) \<times> iht" where
  "contains key t =
     (case getitem key t of
        (Inl KeyError, t') \<Rightarrow> (Inr False, t')
      | (Inl e, t') \<Rightarrow> (Inl e, t')
      | (Inr v, t') \<Rightarrow> (Inr True, t'))"

subsection \<open>\<open>__setitem__\<close>\<close>

text \<open>
  The \<open>while\<close> loop of \<open>__setitem__\<close> has no bound: each round descends one node,
  creating it when the slot holds a leaf. The model counts rounds with fuel and returns
  \<open>None\<close> when the fuel is used up. A node is rebuilt around its updated child, which is
  what the in-place writes amount to, since every node has one parent.
\<close>

fun set_loop :: "nat \<Rightarrow> nat \<Rightarrow> string \<Rightarrow> int \<Rightarrow> node \<Rightarrow> ((error + unit) \<times> node \<times> nat) option" where
  "set_loop 0 lv key v nd = None"
| "set_loop (Suc fuel) lv key v (ArrayR xs c) =
     (let pos = hash lv key in
      if length xs \<le> pos then Some (Inl IndexError, ArrayR xs c, lv)
      else case xs ! pos of
          Empty \<Rightarrow> Some (Inr (), ArrayR (xs[pos := Leaf key v]) (c + 1), lv)
        | Leaf k w \<Rightarrow>
            (let new_table = ArrayR ((replicate TABLE_SIZE Empty)[hash (lv + 1) k := Leaf k w]) (0 + 1)
             in map_option
                  (\<lambda>(r, child, lv'). (r, ArrayR (xs[pos := Inner (take (lv + 1) key) child]) (c + 1), lv'))
                  (set_loop fuel (lv + 1) key v new_table))
        | Inner tag child \<Rightarrow>
            map_option
              (\<lambda>(r, child', lv'). (r, ArrayR (xs[pos := Inner tag child']) (c + 1), lv'))
              (set_loop fuel (lv + 1) key v child))"

definition setitem :: "nat \<Rightarrow> string \<Rightarrow> int \<Rightarrow> iht \<Rightarrow> ((error + unit) \<times> iht) option" where
  "setitem fuel key v t =
     map_option
       (\<lambda>(r, nd, lv). case r of
            Inl e \<Rightarrow> (Inl e, t\<lparr>table := nd, level := lv\<rparr>)
          | Inr u \<Rightarrow> (Inr (), t\<lparr>table := nd, level := lv, count := count t + 1\<rparr>))
       (set_loop fuel 0 key v (table t))"

subsection \<open>\<open>__delitem__\<close>\<close>

text \<open>The first slot that is not \<open>None\<close>, or \<open>None\<close> when there is none.\<close>

fun first_item :: "slot list \<Rightarrow> slot" where
  "first_item [] = Empty"
| "first_item (Empty # xs) = first_item xs"
| "first_item (x # xs) = x"

text \<open>\<open>item[0]\<close>: the key of a leaf, the prefix of an inner slot.\<close>

fun item_key :: "slot \<Rightarrow> string" where
  "item_key (Leaf k v) = k"
| "item_key (Inner tag child) = tag"
| "item_key Empty = []"

text \<open>
  The walk down and the collapse back up. The recursion descends as the first loop does,
  decrementing the counter of each node it leaves behind; the way back is the second
  loop, which pops one node per round. The result is the outcome, the node as it is
  afterwards (also when an exception was raised half way), and \<open>self.level\<close>. A normal
  outcome carries \<open>item\<close> and whether the second loop is still running, that is
  whether the node just handled has counter 1 (its parent is on the stack).
\<close>

function del_loop :: "nat \<Rightarrow> string \<Rightarrow> node \<Rightarrow> (error + slot \<times> bool) \<times> node \<times> nat" where
  "del_loop lv key (ArrayR xs c) =
     (let pos = hash lv key;
          found = (let xs' = xs[pos := Empty]; c' = c - 1
                   in (Inr (first_item xs', c' = 1), ArrayR xs' c', lv))
      in
      if length xs \<le> pos then (Inl IndexError, ArrayR xs c, lv)
      else case xs ! pos of
          Empty \<Rightarrow> (Inl TypeError, ArrayR xs c, lv)
        | Leaf k v \<Rightarrow> if k = key then found else (Inl TypeError, ArrayR xs (c - 1), lv + 1)
        | Inner tag child \<Rightarrow>
            if tag = key then found
            else (case del_loop (lv + 1) key child of
                (Inl e, child', lv') \<Rightarrow> (Inl e, ArrayR (xs[pos := Inner tag child']) (c - 1), lv')
              | (Inr (item, popping), child', lv') \<Rightarrow>
                  (let xs1 = xs[pos := Inner tag child']; c1 = c - 1 in
                   if \<not> popping then (Inr (item, False), ArrayR xs1 c1, lv')
                   else if item = Empty then (Inl TypeError, ArrayR xs1 c1, lv' - 1)
                   else (Inr (item, c1 = 1),
                         ArrayR (xs1[hash (lv' - 1) (item_key item) := item]) c1, lv' - 1))))"
  by pat_completeness auto

termination del_loop
  by (relation "measure (\<lambda>(lv, key, nd). size nd)") (auto simp: size_child simp del: node.size)

definition delitem :: "string \<Rightarrow> iht \<Rightarrow> (error + unit) \<times> iht" where
  "delitem key t =
     (case del_loop 0 key (table t) of
        (Inl e, nd, lv) \<Rightarrow> (Inl e, t\<lparr>table := nd, level := lv\<rparr>)
      | (Inr r, nd, lv) \<Rightarrow> (Inr (), t\<lparr>table := nd, level := lv, count := count t - 1\<rparr>))"

definition len :: "iht \<Rightarrow> int" where
  "len t = count t"

subsection \<open>Stored keys\<close>

text \<open>
  A key is stored when the path that \<open>__setitem__\<close> takes for it (the slot
  \<open>hash(key)\<close> of each node, one level deeper through each pointer) ends at a leaf
  holding that key.
\<close>

function stored :: "nat \<Rightarrow> string \<Rightarrow> node \<Rightarrow> bool" where
  "stored lv key (ArrayR xs c) =
     (let pos = hash lv key in
      if length xs \<le> pos then False
      else case xs ! pos of
          Empty \<Rightarrow> False
        | Leaf k w \<Rightarrow> k = key
        | Inner tag child \<Rightarrow> stored (lv + 1) key child)"
  by pat_completeness auto

termination stored
  by (relation "measure (\<lambda>(lv, key, nd). size nd)") (auto simp: size_child simp del: node.size)

subsection \<open>Well-formed tries\<close>

text \<open>
  The keys of the leaves in the subtree of a node, in slot order, and their number.
\<close>

fun leaf_keys :: "node \<Rightarrow> string list" and slot_keys :: "slot \<Rightarrow> string list" where
  "leaf_keys (ArrayR xs c) = concat (map slot_keys xs)"
| "slot_keys Empty = []"
| "slot_keys (Leaf k v) = [k]"
| "slot_keys (Inner tag child) = leaf_keys child"

definition leaves :: "node \<Rightarrow> nat" where
  "leaves nd = length (leaf_keys nd)"

text \<open>
  A node at depth \<open>lv\<close> is well formed when its counter is the number of leaves in its
  subtree, every leaf in one of its slots hashes to that slot at depth \<open>lv\<close>, and every
  pointer leads to a well-formed node that holds at least two leaves, all of whose keys
  hash to the pointer's slot at depth \<open>lv\<close>.
\<close>

function well_formed :: "nat \<Rightarrow> node \<Rightarrow> bool" and well_formed_slot :: "nat \<Rightarrow> nat \<Rightarrow> slot \<Rightarrow> bool" where
  "well_formed lv (ArrayR xs c) =
     (c = int (leaves (ArrayR xs c)) \<and> list_all (\<lambda>i. well_formed_slot lv i (xs ! i)) [0..<length xs])"
| "well_formed_slot lv i Empty = True"
| "well_formed_slot lv i (Leaf k v) = (hash lv k = i)"
| "well_formed_slot lv i (Inner tag child) =
     (well_formed (lv + 1) child \<and> 2 \<le> leaves child \<and> list_all (\<lambda>k. hash lv k = i) (leaf_keys child))"
  by pat_completeness auto

termination well_formed
  using size_nth_slot
  by (relation "measure (\<lambda>x. case x of Inl (lv, nd) \<Rightarrow> size nd | Inr (lv, i, s) \<Rightarrow> size s)")
     (auto simp: less_Suc_eq_le)

text \<open>
  Whether the walk of \<open>__delitem__\<close> for a key meets a pointer whose prefix tag is the
  key itself.
\<close>

function tag_on_path :: "nat \<Rightarrow> string \<Rightarrow> node \<Rightarrow> bool" where
  "tag_on_path lv key (ArrayR xs c) =
     (let pos = hash lv key in
      if length xs \<le> pos then False
      else case xs ! pos of
          Empty \<Rightarrow> False
        | Leaf k w \<Rightarrow> False
        | Inner tag child \<Rightarrow> tag = key \<or> tag_on_path (lv + 1) key child)"
  by pat_completeness auto

termination tag_on_path
  by (relation "measure (\<lambda>(lv, key, nd). size nd)") (auto simp: size_child simp del: node.size)

text \<open>
  Two readings of the occupancy counter, each required of every node of the trie: the
  number of leaves in the node's subtree, and the number of slots of the node that are
  not \<open>None\<close>.
\<close>

fun counted :: "node \<Rightarrow> bool" and counted_slot :: "slot \<Rightarrow> bool" where
  "counted (ArrayR xs c) = (c = int (leaves (ArrayR xs c)) \<and> list_all counted_slot xs)"
| "counted_slot Empty = True"
| "counted_slot (Leaf k v) = True"
| "counted_slot (Inner tag child) = counted child"

fun slots_counted :: "node \<Rightarrow> bool" and slots_counted_slot :: "slot \<Rightarrow> bool" where
  "slots_counted (ArrayR xs c) =
     (c = int (length (filter (\<lambda>s. s \<noteq> Empty) xs)) \<and> list_all slots_counted_slot xs)"
| "slots_counted_slot Empty = True"
| "slots_counted_slot (Leaf k v) = True"
| "slots_counted_slot (Inner tag child) = slots_counted child"

text \<open>The table after \<open>t["lin"] = 1; t["lim"] = 2\<close>.\<close>

definition lin_lim :: iht where
  "lin_lim =
     \<lparr>table = ArrayR ((replicate 27 Empty)[4 := Inner ''l''
        (ArrayR ((replicate 27 Empty)[1 := Inner ''li''
          (ArrayR ((replicate 27 Empty)[6 := Leaf ''lin'' 1, 5 := Leaf ''lim'' 2]) 2)]) 2)]) 2,
      level = 2, count = 2\<rparr>"

section \<open>The composite table: \<open>double_key_table.py\<close>\<close>

subsection \<open>The polynomial hash\<close>

text \<open>
  The loop shared by \<open>hash1\<close> and \<open>hash2\<close>, with the capacity as an argument, over
  Python's ints. \<open>x % 0\<close> raises \<open>ZeroDivisionError\<close>, which happens in the second
  statement of the body when the capacity is 1. The result is never negative; \<open>hash1\<close>
  and \<open>hash2\<close> hand it on as an index.
\<close>

definition HASH_BASE :: int where
  "HASH_BASE = 31"

fun hash_loop :: "int \<Rightarrow> int \<Rightarrow> int \<Rightarrow> string \<Rightarrow> error + int" where
  "hash_loop cap val a [] = Inr val"
| "hash_loop cap val a (char # key) =
     (if cap = 0 \<or> cap - 1 = 0 then Inl ZeroDivisionError
      else hash_loop cap ((of_char char + a * val) mod cap) (a * HASH_BASE mod (cap - 1)) key)"

subsection \<open>The nested single-key table\<close>

text \<open>
  Modelled from the spec: the class \<open>LinearProbeTable\<close> of \<open>data_structures.hash_table\<close>
  is not among the sources. The spec describes it as an open-addressing table over one
  key type that is constructed with a capacity sequence, has its hash function rebound
  to one parameterised by its own capacity, and exposes its probing entrypoint, its
  capacity, its count and its raw slot sequence. The model below is such a table with
  linear probing (step +1), growth to the next capacity once the count exceeds half the
  capacity (skipped when the sequence is exhausted), and deletion that re-places the rest
  of the cluster. Its default capacity sequence is taken to be the composite table's.
  Capacities are Python ints, positive as table sizes are.
\<close>

record lpt =
  lpt_sizes :: "int list"
  lpt_size_index :: nat
  lpt_count :: int
  lpt_array :: "(string \<times> int) option list"

definition TABLE_SIZES_default :: "int list" where
  "TABLE_SIZES_default =
     [5, 13, 29, 53, 97, 193, 389, 769, 1543, 3079, 6151, 12289, 24593, 49157, 98317,
      196613, 393241, 786433, 1572869]"

definition lpt_new :: "int list option \<Rightarrow> error + lpt" where
  "lpt_new sizes =
     (let table_sizes = (case sizes of None \<Rightarrow> TABLE_SIZES_default | Some s \<Rightarrow> s) in
      case table_sizes of
        [] \<Rightarrow> Inl IndexError
      | n # rest \<Rightarrow> Inr \<lparr>lpt_sizes = table_sizes, lpt_size_index = 0, lpt_count = 0,
                          lpt_array = replicate (nat n) None\<rparr>)"

definition lpt_table_size :: "lpt \<Rightarrow> nat" where
  "lpt_table_size sub_table = length (lpt_array sub_table)"

definition lpt_len :: "lpt \<Rightarrow> int" where
  "lpt_len sub_table = lpt_count sub_table"

text \<open>
  \<open>hash2\<close> of the composite table, to which \<open>_linear_probe\<close> binds the nested
  table's \<open>hash\<close>.
\<close>

definition hash2 :: "string \<Rightarrow> lpt \<Rightarrow> error + nat" where
  "hash2 key sub_table =
     (case hash_loop (int (lpt_table_size sub_table)) 0 31415 key of
        Inl e \<Rightarrow> Inl e
      | Inr val \<Rightarrow> Inr (nat val))"

fun lpt_probe_loop :: "nat \<Rightarrow> nat \<Rightarrow> string \<Rightarrow> bool \<Rightarrow> (string \<times> int) option list \<Rightarrow> error + nat" where
  "lpt_probe_loop 0 position key is_insert arr = Inl (if is_insert then FullError else KeyError)"
| "lpt_probe_loop (Suc n) position key is_insert arr =
     (if length arr \<le> position then Inl IndexError
      else case arr ! position of
          None \<Rightarrow> if is_insert then Inr position else Inl KeyError
        | Some (k, v) \<Rightarrow>
            if k = key then Inr position
            else lpt_probe_loop n ((position + 1) mod length arr) key is_insert arr)"

definition lpt_linear_probe :: "string \<Rightarrow> bool \<Rightarrow> lpt \<Rightarrow> error + nat" where
  "lpt_linear_probe key is_insert sub_table =
     (case hash2 key sub_table of
        Inl e \<Rightarrow> Inl e
      | Inr position \<Rightarrow>
          lpt_probe_loop (lpt_table_size sub_table) position key is_insert (lpt_array sub_table))"

definition lpt_getitem :: "string \<Rightarrow> lpt \<Rightarrow> error + int" where
  "lpt_getitem key sub_table =
     (case lpt_linear_probe key False sub_table of
        Inl e \<Rightarrow> Inl e
      | Inr position \<Rightarrow>
          (case lpt_array sub_table ! position of
             None \<Rightarrow> Inl TypeError
           | Some (k, v) \<Rightarrow> Inr v))"

text \<open>
  Modelled from the spec: setting a key in the nested table. Probe for insertion and
  write, counting a slot that was empty; then grow when the count exceeds half the
  capacity, reinserting every entry into a fresh array of the next capacity.
\<close>

definition lpt_put :: "string \<Rightarrow> int \<Rightarrow> lpt \<Rightarrow> error + lpt" where
  "lpt_put key data sub_table =
     (case lpt_linear_probe key True sub_table of
        Inl e \<Rightarrow> Inl e
      | Inr position \<Rightarrow>
          Inr (sub_table\<lparr>
                 lpt_count := (if lpt_array sub_table ! position = None
                               then lpt_count sub_table + 1 else lpt_count sub_table),
                 lpt_array := (lpt_array sub_table)[position := Some (key, data)]\<rparr>))"

fun lpt_put_all :: "(string \<times> int) option list \<Rightarrow> lpt \<Rightarrow> error + lpt" where
  "lpt_put_all [] sub_table = Inr sub_table"
| "lpt_put_all (None # items) sub_table = lpt_put_all items sub_table"
| "lpt_put_all (Some (key, data) # items) sub_table =
     (case lpt_put key data sub_table of
        Inl e \<Rightarrow> Inl e
      | Inr sub_table' \<Rightarrow> lpt_put_all items sub_table')"

definition lpt_rehash :: "lpt \<Rightarrow> error + lpt" where
  "lpt_rehash sub_table =
     (if length (lpt_sizes sub_table) \<le> lpt_size_index sub_table + 1 then Inr sub_table
      else lpt_put_all (lpt_array sub_table)
             (sub_table\<lparr>
                lpt_size_index := lpt_size_index sub_table + 1,
                lpt_count := 0,
                lpt_array := replicate (nat (lpt_sizes sub_table ! (lpt_size_index sub_table + 1))) None\<rparr>))"

definition lpt_setitem :: "string \<Rightarrow> int \<Rightarrow> lpt \<Rightarrow> error + lpt" where
  "lpt_setitem key data sub_table =
     (case lpt_put key data sub_table of
        Inl e \<Rightarrow> Inl e
      | Inr sub_table' \<Rightarrow>
          if int (lpt_table_size sub_table') < 2 * lpt_len sub_table' then lpt_rehash sub_table'
          else Inr sub_table')"

text \<open>
  Modelled from the spec: deleting a key from the nested table, with the re-placing of
  the cluster that follows the freed slot: each entry is taken out and put back where
  probing from its hash first finds room. The walk has no bound of its own, so it
  carries fuel.
\<close>

fun lpt_repair :: "nat \<Rightarrow> nat \<Rightarrow> lpt \<Rightarrow> (error + lpt) option" where
  "lpt_repair 0 position sub_table = None"
| "lpt_repair (Suc fuel) position sub_table =
     (if lpt_table_size sub_table \<le> position then Some (Inl IndexError)
      else case lpt_array sub_table ! position of
          None \<Rightarrow> Some (Inr sub_table)
        | Some (key2, data) \<Rightarrow>
            (let cleared = sub_table\<lparr>lpt_array := (lpt_array sub_table)[position := None]\<rparr> in
             case lpt_linear_probe key2 True cleared of
               Inl e \<Rightarrow> Some (Inl e)
             | Inr newpos \<Rightarrow>
                 lpt_repair fuel ((position + 1) mod lpt_table_size sub_table)
                   (cleared\<lparr>lpt_array := (lpt_array cleared)[newpos := Some (key2, data)]\<rparr>)))"

definition lpt_delitem :: "nat \<Rightarrow> string \<Rightarrow> lpt \<Rightarrow> (error + lpt) option" where
  "lpt_delitem fuel key sub_table =
     (case lpt_linear_probe key False sub_table of
        Inl e \<Rightarrow> Some (Inl e)
      | Inr position \<Rightarrow>
          lpt_repair fuel ((position + 1) mod lpt_table_size sub_table)
            (sub_table\<lparr>lpt_array := (lpt_array sub_table)[position := None],
                        lpt_count := lpt_count sub_table - 1\<rparr>))"

definition lpt_keys :: "lpt \<Rightarrow> string list" where
  "lpt_keys sub_table = map fst (List.map_filter id (lpt_array sub_table))"

subsection \<open>The composite table's state\<close>

record dkt =
  TABLE_SIZES :: "int list"
  size_index :: nat
  dkt_count :: int
  top_level_array :: "(string \<times> lpt) option list"
  internal_sizes :: "int list option"

definition dkt_init :: "int list option \<Rightarrow> int list option \<Rightarrow> error + dkt" where
  "dkt_init sizes internal =
     (let table_sizes = (case sizes of None \<Rightarrow> TABLE_SIZES_default | Some s \<Rightarrow> s) in
      case table_sizes of
        [] \<Rightarrow> Inl IndexError
      | n # rest \<Rightarrow> Inr \<lparr>TABLE_SIZES = table_sizes, size_index = 0, dkt_count = 0,
                          top_level_array = replicate (nat n) None, internal_sizes = internal\<rparr>)"

definition table_size :: "dkt \<Rightarrow> nat" where
  "table_size t = length (top_level_array t)"

definition dkt_len :: "dkt \<Rightarrow> int" where
  "dkt_len t = dkt_count t"

definition hash1 :: "string \<Rightarrow> dkt \<Rightarrow> error + nat" where
  "hash1 key t =
     (case hash_loop (int (table_size t)) 0 31415 key of
        Inl e \<Rightarrow> Inl e
      | Inr val \<Rightarrow> Inr (nat val))"

subsection \<open>\<open>_linear_probe\<close>\<close>

text \<open>
  The \<open>for\<close> loop of \<open>_linear_probe\<close>, with the number of rounds left. On an empty
  slot an insertion creates the nested table, stores \<open>(key1, table)\<close>, increments
  \<open>count\<close> and returns; a lookup raises \<open>KeyError\<close>.
\<close>

fun probe_loop :: "nat \<Rightarrow> nat \<Rightarrow> string \<Rightarrow> string \<Rightarrow> bool \<Rightarrow> dkt \<Rightarrow> (error + nat \<times> nat) \<times> dkt" where
  "probe_loop 0 position_top_level key1 key2 is_insert t =
     (Inl (if is_insert then FullError else KeyError), t)"
| "probe_loop (Suc n) position_top_level key1 key2 is_insert t =
     (if table_size t \<le> position_top_level then (Inl IndexError, t)
      else case top_level_array t ! position_top_level of
          None \<Rightarrow>
            if is_insert then
              (case lpt_new (internal_sizes t) of
                 Inl e \<Rightarrow> (Inl e, t)
               | Inr new_probe_table \<Rightarrow>
                   (let t' = t\<lparr>top_level_array :=
                                  (top_level_array t)[position_top_level := Some (key1, new_probe_table)],
                                dkt_count := dkt_count t + 1\<rparr>
                    in case hash2 key2 new_probe_table of
                         Inl e \<Rightarrow> (Inl e, t')
                       | Inr h \<Rightarrow> (Inr (position_top_level, h), t')))
            else (Inl KeyError, t)
        | Some (k, position_internal_table) \<Rightarrow>
            if k = key1 then
              (case lpt_linear_probe key2 is_insert position_internal_table of
                 Inl e \<Rightarrow> (Inl e, t)
               | Inr p \<Rightarrow> (Inr (position_top_level, p), t))
            else probe_loop n ((position_top_level + 1) mod table_size t) key1 key2 is_insert t)"

definition linear_probe :: "string \<Rightarrow> string \<Rightarrow> bool \<Rightarrow> dkt \<Rightarrow> (error + nat \<times> nat) \<times> dkt" where
  "linear_probe key1 key2 is_insert t =
     (case hash1 key1 t of
        Inl e \<Rightarrow> (Inl e, t)
      | Inr position_top_level \<Rightarrow>
          probe_loop (table_size t) position_top_level key1 key2 is_insert t)"

subsection \<open>\<open>keys\<close>, \<open>__getitem__\<close>, \<open>__contains__\<close>\<close>

text \<open>
  \<open>keys(None)\<close> lists the outer keys in slot order; \<open>keys(k)\<close> returns the inner keys
  of the first outer slot holding \<open>k\<close>, and \<open>None\<close> when there is no such slot.
\<close>

fun keys_of :: "string \<Rightarrow> (string \<times> lpt) option list \<Rightarrow> string list option" where
  "keys_of key [] = None"
| "keys_of key (None # items) = keys_of key items"
| "keys_of key (Some (k, inner) # items) =
     (if k = key then Some (lpt_keys inner) else keys_of key items)"

definition keys :: "string option \<Rightarrow> dkt \<Rightarrow> string list option" where
  "keys key t =
     (case key of
        None \<Rightarrow> Some (map fst (List.map_filter id (top_level_array t)))
      | Some k \<Rightarrow> keys_of k (top_level_array t))"

text \<open>
  The last line of \<open>__getitem__\<close> is \<open>self.top_level_array[key1_position][key[1]]\<close>:
  the outer slot, a tuple \<open>(key1, table)\<close>, is subscripted with \<open>key[1]\<close>, the second
  key. The second key is a string (\<open>hash2\<close> iterates over it and applies \<open>ord\<close>), and
  subscripting a tuple with a string raises \<open>TypeError\<close>, whatever the tuple holds.
\<close>

definition tuple_getitem :: "(string \<times> lpt) option \<Rightarrow> string \<Rightarrow> error + int" where
  "tuple_getitem tup index = Inl TypeError"

definition dkt_getitem :: "string \<times> string \<Rightarrow> dkt \<Rightarrow> (error + int) \<times> dkt" where
  "dkt_getitem key t =
     (case linear_probe (fst key) (snd key) False t of
        (Inl e, t') \<Rightarrow> (Inl e, t')
      | (Inr (key1_position, key2_position), t') \<Rightarrow>
          (tuple_getitem (top_level_array t' ! key1_position) (snd key), t'))"

definition dkt_contains :: "string \<times> string \<Rightarrow> dkt \<Rightarrow> (error + bool) \<times> dkt" where
  "dkt_contains key t =
     (case dkt_getitem key t of
        (Inl KeyError, t') \<Rightarrow> (Inr False, t')
      | (Inl e, t') \<Rightarrow> (Inl e, t')
      | (Inr v, t') \<Rightarrow> (Inr True, t'))"

subsection \<open>\<open>__setitem__\<close> and \<open>_rehash\<close>\<close>

text \<open>
  \<open>__setitem__\<close> calls \<open>_rehash\<close>, whose loops call \<open>__setitem__\<close> again. The model
  gives the calls fuel: a call of \<open>__setitem__\<close> from a reinsertion loop or of
  \<open>_rehash\<close> from \<open>__setitem__\<close> uses one unit, and \<open>None\<close> is returned when none is
  left. \<open>len(self) > self.table_size / 2\<close> compares an int with a float; it holds
  exactly when twice the count exceeds the capacity.
\<close>

function (sequential) dkt_setitem :: "nat \<Rightarrow> string \<times> string \<Rightarrow> int \<Rightarrow> dkt \<Rightarrow> ((error + unit) \<times> dkt) option"
  and rehash :: "nat \<Rightarrow> dkt \<Rightarrow> ((error + unit) \<times> dkt) option"
  and reinsert_outer :: "nat \<Rightarrow> (string \<times> lpt) option list \<Rightarrow> dkt \<Rightarrow> ((error + unit) \<times> dkt) option"
  and reinsert_inner :: "nat \<Rightarrow> string \<Rightarrow> (string \<times> int) option list \<Rightarrow> dkt \<Rightarrow> ((error + unit) \<times> dkt) option"
where
  "dkt_setitem 0 key data t = None"
| "dkt_setitem (Suc fuel) key data t =
     (case linear_probe (fst key) (snd key) True t of
        (Inl e, t1) \<Rightarrow> Some (Inl e, t1)
      | (Inr (key1_position, key2_position), t1) \<Rightarrow>
          (case top_level_array t1 ! key1_position of
             None \<Rightarrow> Some (Inl TypeError, t1)
           | Some (k, inner) \<Rightarrow>
               (case (if k = fst key then lpt_setitem (snd key) data inner else Inr inner) of
                  Inl e \<Rightarrow> Some (Inl e, t1)
                | Inr inner' \<Rightarrow>
                    (let t2 = t1\<lparr>top_level_array :=
                                   (top_level_array t1)[key1_position := Some (k, inner')]\<rparr>
                     in if int (table_size t2) < 2 * dkt_len t2 then rehash fuel t2
                        else Some (Inr (), t2)))))"
| "rehash fuel t =
     (let old_array = top_level_array t;
          t1 = t\<lparr>size_index := size_index t + 1\<rparr>
      in if size_index t1 = length (TABLE_SIZES t1) then Some (Inr (), t1)
         else if length (TABLE_SIZES t1) \<le> size_index t1 then Some (Inl IndexError, t1)
         else reinsert_outer fuel old_array
                (t1\<lparr>top_level_array := replicate (nat (TABLE_SIZES t1 ! size_index t1)) None,
                    dkt_count := 0\<rparr>))"
| "reinsert_outer fuel [] t = Some (Inr (), t)"
| "reinsert_outer fuel (None # items) t = reinsert_outer fuel items t"
| "reinsert_outer fuel (Some (key1, inner_linear_probe_table) # items) t =
     (case reinsert_inner fuel key1 (lpt_array inner_linear_probe_table) t of
        None \<Rightarrow> None
      | Some (Inl e, t') \<Rightarrow> Some (Inl e, t')
      | Some (Inr u, t') \<Rightarrow> reinsert_outer fuel items t')"
| "reinsert_inner fuel key1 [] t = Some (Inr (), t)"
| "reinsert_inner fuel key1 (None # inner_items) t = reinsert_inner fuel key1 inner_items t"
| "reinsert_inner fuel key1 (Some (key2, data) # inner_items) t =
     (case dkt_setitem fuel (key1, key2) data t of
        None \<Rightarrow> None
      | Some (Inl e, t') \<Rightarrow> Some (Inl e, t')
      | Some (Inr u, t') \<Rightarrow> reinsert_inner fuel key1 inner_items t')"
  by pat_completeness auto

termination
  by (relation "inv_image (less_than <*lex*> less_than <*lex*> less_than)
        (\<lambda>x. case x of
           Inl (Inl (fuel, key, data, t)) \<Rightarrow> (fuel, 0, 0)
         | Inl (Inr (fuel, t)) \<Rightarrow> (fuel, 3, 0)
         | Inr (Inl (fuel, items, t)) \<Rightarrow> (fuel, 2, length items)
         | Inr (Inr (fuel, key1, items, t)) \<Rightarrow> (fuel, 1, length items))")
     auto

subsection \<open>\<open>__delitem__\<close>\<close>

text \<open>
  The \<open>while\<close> loop that walks the cluster after an outer slot was freed: every entry
  of every nested table met is set again through \<open>__setitem__\<close>, and the walk stops at
  the first empty slot. The slot walked over is not cleared first.
\<close>

fun cluster_loop :: "nat \<Rightarrow> nat \<Rightarrow> dkt \<Rightarrow> ((error + unit) \<times> dkt) option" where
  "cluster_loop 0 key1_position t = None"
| "cluster_loop (Suc fuel) key1_position t =
     (if table_size t \<le> key1_position then Some (Inl IndexError, t)
      else case top_level_array t ! key1_position of
          None \<Rightarrow> Some (Inr (), t)
        | Some (key1, inner_table) \<Rightarrow>
            (case reinsert_inner fuel key1 (lpt_array inner_table) t of
               None \<Rightarrow> None
             | Some (Inl e, t') \<Rightarrow> Some (Inl e, t')
             | Some (Inr u, t') \<Rightarrow> cluster_loop fuel ((key1_position + 1) mod table_size t') t'))"

definition dkt_delitem :: "nat \<Rightarrow> string \<times> string \<Rightarrow> dkt \<Rightarrow> ((error + unit) \<times> dkt) option" where
  "dkt_delitem fuel key t =
     (case linear_probe (fst key) (snd key) False t of
        (Inl e, t1) \<Rightarrow> Some (Inl e, t1)
      | (Inr (key1_position, key2_position), t1) \<Rightarrow>
          (case top_level_array t1 ! key1_position of
             None \<Rightarrow> Some (Inl TypeError, t1)
           | Some (k, inner) \<Rightarrow>
               (case lpt_delitem fuel (snd key) inner of
                  None \<Rightarrow> None
                | Some (Inl e) \<Rightarrow> Some (Inl e, t1)
                | Some (Inr inner') \<Rightarrow>
                    (let t2 = t1\<lparr>top_level_array :=
                                   (top_level_array t1)[key1_position := Some (k, inner')]\<rparr>
                     in if lpt_len inner' = 0 then
                          (let t3 = t2\<lparr>top_level_array := (top_level_array t2)[key1_position := None],
                                       dkt_count := dkt_count t2 - 1\<rparr>
                           in cluster_loop fuel ((key1_position + 1) mod table_size t3) t3)
                        else Some (Inr (), t2)))))"

section \<open>Callers\<close>

text \<open>
  A caller performs a list of calls on one table, catching whatever a call raises and
  going on with the table as the call left it. The result is what each call returned or
  raised, and the table at the end; \<open>None\<close> when a call ran out of fuel.
\<close>

datatype outcome =
    Raised error
  | Returned
  | Value obj
  | Location "nat list"
  | Truth bool
  | Number int
  | Keys "string list option"

fun outcome_of :: "('a \<Rightarrow> outcome) \<Rightarrow> error + 'a \<Rightarrow> outcome" where
  "outcome_of f (Inl e) = Raised e"
| "outcome_of f (Inr x) = f x"

datatype call = Set string int | Del string | Get string | GetLocation string | Contains string | Len

fun call_iht :: "nat \<Rightarrow> call \<Rightarrow> iht \<Rightarrow> (outcome \<times> iht) option" where
  "call_iht fuel (Set key v) t =
     map_option (\<lambda>(r, t'). (outcome_of (\<lambda>u. Returned) r, t')) (setitem fuel key v t)"
| "call_iht fuel (Del key) t = (case delitem key t of (r, t') \<Rightarrow> Some (outcome_of (\<lambda>u. Returned) r, t'))"
| "call_iht fuel (Get key) t = (case getitem key t of (r, t') \<Rightarrow> Some (outcome_of Value r, t'))"
| "call_iht fuel (GetLocation key) t =
     (case get_location key t of (r, t') \<Rightarrow> Some (outcome_of Location r, t'))"
| "call_iht fuel (Contains key) t = (case contains key t of (r, t') \<Rightarrow> Some (outcome_of Truth r, t'))"
| "call_iht fuel Len t = Some (Number (len t), t)"

fun run_iht :: "nat \<Rightarrow> call list \<Rightarrow> iht \<Rightarrow> (outcome list \<times> iht) option" where
  "run_iht fuel [] t = Some ([], t)"
| "run_iht fuel (c # cs) t =
     (case call_iht fuel c t of
        None \<Rightarrow> None
      | Some (r, t') \<Rightarrow> map_option (\<lambda>(rs, t''). (r # rs, t'')) (run_iht fuel cs t'))"

definition iht_outcomes :: "nat \<Rightarrow> call list \<Rightarrow> outcome list option" where
  "iht_outcomes fuel cs = map_option fst (run_iht fuel cs iht_init)"

definition iht_after :: "nat \<Rightarrow> call list \<Rightarrow> iht option" where
  "iht_after fuel cs = map_option snd (run_iht fuel cs iht_init)"

datatype dcall =
    DSet "string \<times> string" int
  | DDel "string \<times> string"
  | DGet "string \<times> string"
  | DContains "string \<times> string"
  | DKeys "string option"
  | DLen
  | DTableSize

fun call_dkt :: "nat \<Rightarrow> dcall \<Rightarrow> dkt \<Rightarrow> (outcome \<times> dkt) option" where
  "call_dkt fuel (DSet key v) t =
     map_option (\<lambda>(r, t'). (outcome_of (\<lambda>u. Returned) r, t')) (dkt_setitem fuel key v t)"
| "call_dkt fuel (DDel key) t =
     map_option (\<lambda>(r, t'). (outcome_of (\<lambda>u. Returned) r, t')) (dkt_delitem fuel key t)"
| "call_dkt fuel (DGet key) t = (case dkt_getitem key t of (r, t') \<Rightarrow> Some (outcome_of Number r, t'))"
| "call_dkt fuel (DContains key) t =
     (case dkt_contains key t of (r, t') \<Rightarrow> Some (outcome_of Truth r, t'))"
| "call_dkt fuel (DKeys key) t = Some (Keys (keys key t), t)"
| "call_dkt fuel DLen t = Some (Number (dkt_len t), t)"
| "call_dkt fuel DTableSize t = Some (Number (int (table_size t)), t)"

fun run_dkt :: "nat \<Rightarrow> dcall list \<Rightarrow> dkt \<Rightarrow> (outcome list \<times> dkt) option" where
  "run_dkt fuel [] t = Some ([], t)"
| "run_dkt fuel (c # cs) t =
     (case call_dkt fuel c t of
        None \<Rightarrow> None
      | Some (r, t') \<Rightarrow> map_option (\<lambda>(rs, t''). (r # rs, t'')) (run_dkt fuel cs t'))"

text \<open>The calls are made on \<open>DoubleKeyTable(sizes, internal_sizes)\<close>.\<close>

definition dkt_outcomes :: "nat \<Rightarrow> int list option \<Rightarrow> int list option \<Rightarrow> dcall list \<Rightarrow> outcome list option" where
  "dkt_outcomes fuel sizes internal cs =
     (case dkt_init sizes internal of
        Inl e \<Rightarrow> Some [Raised e]
      | Inr t \<Rightarrow> map_option fst (run_dkt fuel cs t))"

section \<open>The claims\<close>

subsection \<open>Basic facts\<close>

lemma hash_less: "hash lv key < TABLE_SIZE"
  using mod_less_divisor [of 26 "of_char (key ! lv)"]
  by (auto simp: hash_def TABLE_SIZE_def simp del: mod_less_divisor)

subsection \<open>C1: reading back what was set\<close>

text \<open>
  Whatever the table and the key pair, \<open>__getitem__\<close> of the composite table never
  returns a value: either the probe raises, or the last line subscripts the outer tuple
  with the second key and raises \<open>TypeError\<close>.
\<close>

lemma dkt_getitem_never_returns: "fst (dkt_getitem key t) \<noteq> Inr v"
  by (simp add: dkt_getitem_def tuple_getitem_def split: prod.splits sum.splits)

text \<open>
  C1. The claim: for both tables, after \<open>set(k, v)\<close> with no delete of \<open>k\<close> in between,
  \<open>get(k)\<close> returns \<open>v\<close>. On the composite table it does not: on a fresh
  \<open>DoubleKeyTable()\<close>, \<open>t["a", "x"] = 1\<close> returns and \<open>t["a", "x"]\<close> then raises
  \<open>TypeError\<close> instead of returning 1.
\<close>

theorem C1_composite_get_after_set_raises:
  "dkt_outcomes 2 None None [DSet (''a'', ''x'') 1, DGet (''a'', ''x'')]
     = Some [Returned, Raised TypeError]"
  by code_simp

subsection \<open>C2: deleting a key leaves the other keys retrievable\<close>

text \<open>
  C2. The claim: after deleting a present key, \<open>get\<close> of it raises \<open>KeyError\<close> and
  every other live key is still retrievable with its value; in particular Scenario A
  holds. In Scenario A the outer keys and the inner keys of \<open>"a"\<close> are as claimed and
  \<open>get(("a", "x"))\<close> raises \<open>KeyError\<close> after the delete, but \<open>get(("a", "y"))\<close>
  raises \<open>TypeError\<close> instead of returning 2. On the trie table, with \<open>"lin"\<close>,
  \<open>"lim"\<close> and \<open>"l"\<close> stored, deleting \<open>"l"\<close> stops at the root slot whose prefix
  tag is \<open>"l"\<close> and clears it: \<open>"lin"\<close> and \<open>"lim"\<close> are gone with it, and \<open>len()\<close>
  is 2.
\<close>

theorem C2_delete_loses_siblings:
  "dkt_outcomes 2 None None
       [DSet (''a'', ''x'') 1, DSet (''a'', ''y'') 2, DSet (''b'', ''x'') 3, DKeys None,
        DKeys (Some ''a''), DDel (''a'', ''x''), DGet (''a'', ''y''), DGet (''a'', ''x'')]
     = Some [Returned, Returned, Returned, Keys (Some [''a'', ''b'']), Keys (Some [''x'', ''y'']),
             Returned, Raised TypeError, Raised KeyError]
   \<and> iht_outcomes 3
       [Set ''lin'' 1, Set ''lim'' 2, Set ''l'' 3, Del ''l'', Get ''lin'', Get ''lim'', Len]
     = Some [Returned, Returned, Returned, Returned, Raised TypeError, Raised TypeError, Number 2]"
  by code_simp

subsection \<open>C3: setting a key that is already stored\<close>

lemma stored_new_table:
  "stored lv key (ArrayR ((replicate TABLE_SIZE Empty)[hash lv key := Leaf key w]) c)"
  using hash_less [of lv key] by (simp add: Let_def not_le)

text \<open>
  When the loop of \<open>__setitem__\<close> meets the leaf of the key it is setting, it moves
  that leaf into a new node, at the slot the key hashes to one level down, and goes on in
  that node, where it meets the leaf again: no amount of fuel is enough.
\<close>

lemma set_loop_stored: "stored lv key nd \<Longrightarrow> set_loop fuel lv key v nd = None"
proof (induction fuel arbitrary: lv nd)
  case 0
  show ?case by simp
next
  case (Suc fuel)
  obtain xs c where nd: "nd = ArrayR xs c" by (cases nd)
  let ?pos = "hash lv key"
  from Suc.prems nd have inside: "\<not> length xs \<le> ?pos"
    by (auto simp: Let_def split: if_splits)
  show ?case
  proof (cases "xs ! ?pos")
    case Empty
    with Suc.prems nd inside show ?thesis by (simp add: Let_def)
  next
    case (Leaf k w)
    with Suc.prems nd inside have "k = key" by (simp add: Let_def)
    with Leaf nd inside Suc.IH [OF stored_new_table, of "lv + 1" w 1] show ?thesis
      by (simp add: Let_def)
  next
    case (Inner tag child)
    with Suc.prems nd inside have "stored (lv + 1) key child" by (simp add: Let_def)
    from Suc.IH [OF this] Inner nd inside show ?thesis by (simp add: Let_def)
  qed
qed

text \<open>
  C3. The claim: on the trie table, setting a key that is already present terminates and
  overwrites: \<open>get\<close> returns the new value and \<open>len()\<close> is unchanged. \<open>__setitem__\<close>
  compares no keys at all; for a stored key it never returns, whatever the fuel.
\<close>

theorem C3_set_of_stored_key_never_returns:
  "stored 0 key (table t) \<Longrightarrow> setitem fuel key v t = None"
  by (simp add: setitem_def set_loop_stored)

theorem C3_set_of_stored_key_witness:
  "setitem 1 ''a'' 1 iht_init
     = Some (Inr (), \<lparr>table = ArrayR ((replicate 27 Empty)[19 := Leaf ''a'' 1]) 1,
                       level = 0, count = 1\<rparr>)
   \<and> stored 0 ''a''
        (table \<lparr>table = ArrayR ((replicate 27 Empty)[19 := Leaf ''a'' 1]) 1, level = 0, count = 1\<rparr>)
   \<and> setitem 1000 ''a'' 2
        \<lparr>table = ArrayR ((replicate 27 Empty)[19 := Leaf ''a'' 1]) 1, level = 0, count = 1\<rparr>
     = None"
proof -
  have s: "stored 0 ''a''
      (table \<lparr>table = ArrayR ((replicate 27 Empty)[19 := Leaf ''a'' 1]) 1, level = 0, count = 1\<rparr>)"
    by code_simp
  have i: "setitem 1 ''a'' 1 iht_init
     = Some (Inr (), \<lparr>table = ArrayR ((replicate 27 Empty)[19 := Leaf ''a'' 1]) 1,
                       level = 0, count = 1\<rparr>)"
    by code_simp
  from s i C3_set_of_stored_key_never_returns [OF s, of 1000 2] show ?thesis by simp
qed

subsection \<open>C4: growth of the composite table\<close>

text \<open>
  C4. The claim: when the outer count exceeds half the outer capacity after a set, the
  next capacity of the sequence is adopted and every triple stored before is retrievable
  afterwards. On a fresh \<open>DoubleKeyTable()\<close> the third outer key makes the count 3 of
  capacity 5, the capacity becomes 13 and the three outer keys are in the new array, but
  \<open>get\<close> of each of the three pairs raises \<open>TypeError\<close>.
\<close>

theorem C4_growth_then_get_raises:
  "dkt_outcomes 2 None None
       [DSet (''a'', ''x'') 1, DSet (''b'', ''x'') 2, DTableSize, DSet (''c'', ''x'') 3, DLen,
        DTableSize, DKeys None, DGet (''a'', ''x''), DGet (''b'', ''x''), DGet (''c'', ''x'')]
     = Some [Returned, Returned, Number 5, Returned, Number 3, Number 13,
             Keys (Some [''a'', ''b'', ''c'']), Raised TypeError, Raised TypeError, Raised TypeError]"
  by code_simp

subsection \<open>C5: growth with the capacity sequence exhausted\<close>

text \<open>
  Once \<open>size_index\<close> has reached the length of the capacity sequence, every further
  call of \<open>_rehash\<close> raises \<open>IndexError\<close>.
\<close>

lemma rehash_past_the_end:
  "length (TABLE_SIZES t) \<le> size_index t \<Longrightarrow>
     rehash fuel t = Some (Inl IndexError, t\<lparr>size_index := size_index t + 1\<rparr>)"
  by (simp add: Let_def)

text \<open>
  C5. The claim: a set whose occupancy check asks for growth when the capacity is the
  last of the sequence completes without an error and leaves the capacity as it is,
  also after an earlier such attempt. On \<open>DoubleKeyTable(sizes=[5])\<close> the third outer
  key asks for growth and the set returns, the capacity still 5; the fourth set asks
  again and raises \<open>IndexError\<close>: \<open>_rehash\<close> has incremented \<open>size_index\<close> past the
  length of the sequence, the test for equality fails, and the sequence is read out of
  range.
\<close>

theorem C5_second_exhausted_growth_raises:
  "dkt_outcomes 2 (Some [5]) None
       [DSet (''a'', ''x'') 1, DSet (''b'', ''x'') 2, DSet (''c'', ''x'') 3, DLen, DTableSize,
        DSet (''d'', ''x'') 4, DTableSize]
     = Some [Returned, Returned, Returned, Number 3, Number 5, Raised IndexError, Number 5]"
  by code_simp

subsection \<open>C6: absent keys raise \<open>KeyError\<close>\<close>

text \<open>
  C6. The claim: every read and every delete of an absent key fails with \<open>KeyError\<close>
  and nothing else, also when the walk ends at an empty slot or at a leaf with another
  key. On an empty trie table \<open>get("a")\<close>, \<open>"a" in t\<close> and \<open>del t["a"]\<close> raise
  \<open>TypeError\<close> and \<open>get_location("a")\<close> returns \<open>[19]\<close>; with \<open>"ab"\<close> stored,
  \<open>del t["ac"]\<close> reaches the leaf of \<open>"ab"\<close> and raises \<open>TypeError\<close>.
\<close>

theorem C6_absent_key_not_KeyError:
  "iht_outcomes 2
       [Get ''a'', GetLocation ''a'', Contains ''a'', Del ''a'', Set ''ab'' 1, Del ''ac'']
     = Some [Raised TypeError, Location [19], Raised TypeError, Raised TypeError, Returned,
             Raised TypeError]"
  by code_simp

subsection \<open>C7: collapse of the trie\<close>

text \<open>
  Scenario B: with \<open>"lin"\<close> and \<open>"lim"\<close> stored both are read back, and deleting
  \<open>"lin"\<close> moves the leaf of \<open>"lim"\<close> up into the root.
\<close>

lemma scenario_B:
  "run_iht 3 [Set ''lin'' 1, Set ''lim'' 2, Get ''lin'', Get ''lim'', Del ''lin'', Get ''lim'']
       iht_init
     = Some ([Returned, Returned, Value (Val 1), Value (Val 2), Returned, Value (Val 2)],
        \<lparr>table = ArrayR ((replicate 27 Empty)[4 := Leaf ''lim'' 2]) 1, level = 0, count = 1\<rparr>)"
  by code_simp

text \<open>
  C7. The claim: whenever a delete leaves one leaf beneath an internal node, that leaf is
  moved into the parent's slot, and so on upwards; in particular Scenario B holds.
  Scenario B holds (\<open>scenario_B\<close>), the general statement does not: with \<open>"lin"\<close>,
  \<open>"la"\<close> and \<open>"li"\<close> stored, deleting \<open>"li"\<close> stops at the slot of the node under
  \<open>"l"\<close> whose prefix tag is \<open>"li"\<close> and clears it. The node under \<open>"l"\<close> is left
  with the one leaf \<open>"la"\<close> and counter 2, and stays where it is; \<open>"lin"\<close> is gone.
\<close>

theorem C7_single_leaf_not_relocated:
  "run_iht 3 [Set ''lin'' 1, Set ''la'' 2, Set ''li'' 3, Del ''li'', Get ''lin''] iht_init
     = Some ([Returned, Returned, Returned, Returned, Raised TypeError],
        \<lparr>table = ArrayR ((replicate 27 Empty)[4 := Inner ''l''
                   (ArrayR ((replicate 27 Empty)[19 := Leaf ''la'' 2]) 2)]) 2,
         level = 0, count = 2\<rparr>)"
  by code_simp

subsection \<open>C8: \<open>len()\<close> is the number of live keys\<close>

text \<open>
  C8. The claim: after any sequence of sets and deletes \<open>len()\<close> is the number of live
  keys: distinct keys for the trie table, distinct first keys for the composite table.
  On a fresh \<open>DoubleKeyTable()\<close>, \<open>"a"\<close> and \<open>"f"\<close> hash to the same outer slot;
  after setting \<open>("a", "x")\<close> and \<open>("f", "x")\<close> and deleting \<open>("a", "x")\<close> the outer
  array holds \<open>"f"\<close> twice and \<open>len()\<close> is 2. On the trie table, with \<open>"lin"\<close> and
  \<open>"lim"\<close> stored, deleting the absent key \<open>"l"\<close> returns, \<open>len()\<close> is 1, and neither
  key is found any more.
\<close>

theorem C8_len_not_live_keys:
  "dkt_outcomes 3 None None
       [DSet (''a'', ''x'') 1, DSet (''f'', ''x'') 2, DDel (''a'', ''x''), DLen, DKeys None]
     = Some [Returned, Returned, Returned, Number 2, Keys (Some [''f'', ''f''])]
   \<and> iht_outcomes 3 [Set ''lin'' 1, Set ''lim'' 2, Del ''l'', Len, Get ''lin'', Get ''lim'']
     = Some [Returned, Returned, Returned, Number 1, Raised TypeError, Raised TypeError]"
  by code_simp

subsection \<open>C9: what the occupancy counter counts\<close>

lemma wf_iff:
  "well_formed lv (ArrayR xs c) \<longleftrightarrow>
     c = int (leaves (ArrayR xs c)) \<and> (\<forall>i<length xs. well_formed_slot lv i (xs ! i))"
  by (auto simp: list_all_iff)

declare well_formed.simps(1) [simp del]

lemma leaves_ArrayR: "leaves (ArrayR xs c) = sum_list (map (\<lambda>s. length (slot_keys s)) xs)"
  by (simp add: leaves_def length_concat comp_def)

lemma leaves_update:
  "i < length xs \<Longrightarrow>
     leaves (ArrayR (xs[i := s]) c) + length (slot_keys (xs ! i)) = leaves (ArrayR xs c') + length (slot_keys s)"
proof (induction xs arbitrary: i)
  case Nil
  then show ?case by simp
next
  case (Cons x xs)
  then show ?case by (cases i) (auto simp: leaves_ArrayR)
qed

lemma keys_ArrayR: "set (leaf_keys (ArrayR xs c)) = (\<Union>s\<in>set xs. set (slot_keys s))"
  by simp

lemma keys_nth_subset:
  "i < length xs \<Longrightarrow> set (slot_keys (xs ! i)) \<subseteq> set (leaf_keys (ArrayR xs c))"
  using nth_mem [of i xs] by (auto simp del: nth_mem)

lemma keys_update_subset:
  "set (leaf_keys (ArrayR (xs[i := s]) c)) \<subseteq> set (slot_keys s) \<union> set (leaf_keys (ArrayR xs c'))"
  using set_update_subset_insert [of xs i s] by auto

lemma keys_update_mem:
  "i < length xs \<Longrightarrow> k \<in> set (slot_keys s) \<Longrightarrow> k \<in> set (leaf_keys (ArrayR (xs[i := s]) c))"
  using set_update_memI [of i xs s] by auto

lemma leaves_replicate [simp]: "leaves (ArrayR (replicate n Empty) c) = 0"
  by (simp add: leaves_ArrayR)


declare leaf_keys.simps(1) [simp del]

lemma length_leaf_keys [simp]: "length (leaf_keys nd) = leaves nd"
  by (simp add: leaves_def)

lemma wf_update:
  assumes "well_formed lv (ArrayR xs c)" and "pos < length xs" and "well_formed_slot lv pos s"
    and "c' = int (leaves (ArrayR (xs[pos := s]) c'))"
  shows "well_formed lv (ArrayR (xs[pos := s]) c')"
  using assms by (auto simp: wf_iff nth_list_update)

lemma wf_new_table:
  "well_formed lv (ArrayR ((replicate TABLE_SIZE Empty)[hash lv k := Leaf k w]) 1)"
proof -
  have "leaves (ArrayR ((replicate TABLE_SIZE Empty)[hash lv k := Leaf k w]) 1) = 1"
    using leaves_update [of "hash lv k" "replicate TABLE_SIZE Empty" "Leaf k w" 1 1] hash_less [of lv k]
    by simp
  then show ?thesis
    using hash_less [of lv k] by (auto simp: wf_iff nth_list_update)
qed

lemma leaves_new_table:
  "leaves (ArrayR ((replicate TABLE_SIZE Empty)[hash lv k := Leaf k w]) c) = 1"
  using leaves_update [of "hash lv k" "replicate TABLE_SIZE Empty" "Leaf k w" c c] hash_less [of lv k]
  by simp

lemma keys_new_table:
  "set (leaf_keys (ArrayR ((replicate TABLE_SIZE Empty)[hash lv k := Leaf k w]) c)) \<subseteq> {k}"
  using keys_update_subset [of "replicate TABLE_SIZE Empty" "hash lv k" "Leaf k w" c c]
  by (auto simp: leaf_keys.simps(1))


lemma set_loop_wf:
  "well_formed lv nd \<Longrightarrow> set_loop fuel lv key v nd = Some (Inr (), nd', lv') \<Longrightarrow>
     well_formed lv nd' \<and> leaves nd' = leaves nd + 1
       \<and> set (leaf_keys nd') \<subseteq> insert key (set (leaf_keys nd))"
proof (induction fuel arbitrary: lv nd nd' lv')
  case 0
  then show ?case by simp
next
  case (Suc fuel)
  obtain xs c where nd: "nd = ArrayR xs c" by (cases nd)
  let ?pos = "hash lv key"
  from Suc.prems(2) nd have inside: "?pos < length xs"
    by (auto simp: Let_def split: if_splits)
  from Suc.prems(1) nd have c: "c = int (leaves (ArrayR xs c))"
    and slots: "\<And>i. i < length xs \<Longrightarrow> well_formed_slot lv i (xs ! i)"
    by (auto simp: wf_iff)
  show ?case
  proof (cases "xs ! ?pos")
    case Empty
    with Suc.prems(2) nd inside have nd': "nd' = ArrayR (xs[?pos := Leaf key v]) (c + 1)"
      by (auto simp: Let_def)
    have l: "leaves nd' = leaves nd + 1"
      using leaves_update [OF inside, of "Leaf key v" "c + 1" c] Empty nd nd' by simp
    have "well_formed lv nd'"
      unfolding nd' by (rule wf_update [OF Suc.prems(1) [unfolded nd] inside])
        (use l c nd nd' in auto)
    moreover have "set (leaf_keys nd') \<subseteq> insert key (set (leaf_keys nd))"
      using keys_update_subset [of xs ?pos "Leaf key v" "c + 1" c] nd nd' by auto
    ultimately show ?thesis using l by simp
  next
    case (Leaf k w)
    let ?new = "ArrayR ((replicate TABLE_SIZE Empty)[hash (lv + 1) k := Leaf k w]) (0 + 1)"
    from Suc.prems(2) nd inside Leaf obtain child where
      rec: "set_loop fuel (lv + 1) key v ?new = Some (Inr (), child, lv')"
      and nd': "nd' = ArrayR (xs[?pos := Inner (take (lv + 1) key) child]) (c + 1)"
      by (auto simp: Let_def)
    have "well_formed (lv + 1) ?new" using wf_new_table [of "lv + 1" k w] by simp
    from Suc.IH [OF this rec] have ch: "well_formed (lv + 1) child" "leaves child = 2"
      and chk: "set (leaf_keys child) \<subseteq> {key, k}"
      using leaves_new_table [of "lv + 1" k w 1] keys_new_table [of "lv + 1" k w 1] by auto
    from slots [OF inside] Leaf have hk: "hash lv k = ?pos" by simp
    have l: "leaves nd' = leaves nd + 1"
      using leaves_update [OF inside, of "Inner (take (lv + 1) key) child" "c + 1" c] Leaf nd nd' ch
      by simp
    have "well_formed_slot lv ?pos (Inner (take (lv + 1) key) child)"
      using ch chk hk by (auto simp: list_all_iff)
    then have "well_formed lv nd'"
      unfolding nd' by (rule wf_update [OF Suc.prems(1) [unfolded nd] inside])
        (use l c nd nd' in auto)
    moreover have "set (leaf_keys nd') \<subseteq> insert key (set (leaf_keys nd))"
      using keys_update_subset [of xs ?pos "Inner (take (lv + 1) key) child" "c + 1" c]
        keys_nth_subset [OF inside, of c] chk Leaf nd nd' by auto
    ultimately show ?thesis using l by simp
  next
    case (Inner tag child0)
    from Suc.prems(2) nd inside Inner obtain child where
      rec: "set_loop fuel (lv + 1) key v child0 = Some (Inr (), child, lv')"
      and nd': "nd' = ArrayR (xs[?pos := Inner tag child]) (c + 1)"
      by (auto simp: Let_def)
    from slots [OF inside] Inner have w0: "well_formed (lv + 1) child0" "2 \<le> leaves child0"
      and k0: "\<And>k. k \<in> set (leaf_keys child0) \<Longrightarrow> hash lv k = ?pos"
      by (auto simp: list_all_iff)
    from Suc.IH [OF w0(1) rec] have ch: "well_formed (lv + 1) child" "leaves child = leaves child0 + 1"
      and chk: "set (leaf_keys child) \<subseteq> insert key (set (leaf_keys child0))"
      by auto
    have l: "leaves nd' = leaves nd + 1"
      using leaves_update [OF inside, of "Inner tag child" "c + 1" c] Inner nd nd' ch
      by simp
    have "well_formed_slot lv ?pos (Inner tag child)"
      using ch chk k0 w0 by (auto simp: list_all_iff)
    then have "well_formed lv nd'"
      unfolding nd' by (rule wf_update [OF Suc.prems(1) [unfolded nd] inside])
        (use l c nd nd' in auto)
    moreover have "set (leaf_keys nd') \<subseteq> insert key (set (leaf_keys nd))"
      using keys_update_subset [of xs ?pos "Inner tag child" "c + 1" c]
        keys_nth_subset [OF inside, of c] chk Inner nd nd' by auto
    ultimately show ?thesis using l by simp
  qed
qed


lemma leaves_nth_le: "i < length xs \<Longrightarrow> length (slot_keys (xs ! i)) \<le> leaves (ArrayR xs c)"
  using leaves_update [of i xs Empty c c] by simp

lemma first_item_single:
  "sum_list (map (\<lambda>s. length (slot_keys s)) xs) = 1 \<Longrightarrow>
   (\<And>tag ch. Inner tag ch \<in> set xs \<Longrightarrow> 2 \<le> leaves ch) \<Longrightarrow>
   \<exists>k v. first_item xs = Leaf k v \<and> Leaf k v \<in> set xs"
proof (induction xs)
  case Nil
  then show ?case by simp
next
  case (Cons x xs)
  show ?case
  proof (cases x)
    case Empty
    with Cons show ?thesis by auto
  next
    case (Leaf k v)
    then show ?thesis by simp
  next
    case (Inner tag ch)
    with Cons.prems(2) [of tag ch] have "2 \<le> leaves ch" by simp
    with Cons.prems(1) Inner show ?thesis by simp
  qed
qed

lemma wf_single_leaf:
  assumes "well_formed lv (ArrayR xs c)" and "leaves (ArrayR xs c) = 1"
  shows "\<exists>k v. first_item xs = Leaf k v \<and> k \<in> set (leaf_keys (ArrayR xs c))"
proof -
  have "2 \<le> leaves ch" if "Inner tag ch \<in> set xs" for tag ch
  proof -
    from that obtain i where "i < length xs" "xs ! i = Inner tag ch"
      by (auto simp: in_set_conv_nth)
    with assms(1) show ?thesis by (auto simp: wf_iff)
  qed
  with first_item_single [of xs] assms(2) obtain k v
    where "first_item xs = Leaf k v" "Leaf k v \<in> set xs"
    by (auto simp: leaves_ArrayR)
  then show ?thesis by (auto simp: leaf_keys.simps(1) intro!: bexI [of _ "Leaf k v"])
qed


lemma del_loop_wf:
  "well_formed lv nd \<Longrightarrow> \<not> tag_on_path lv key nd \<Longrightarrow>
   del_loop lv key nd = (Inr (item, popping), nd', lv') \<Longrightarrow>
     well_formed lv nd' \<and> leaves nd' + 1 = leaves nd
       \<and> set (leaf_keys nd') \<subseteq> set (leaf_keys nd)
       \<and> (popping \<longrightarrow> lv' = lv) \<and> (popping \<longleftrightarrow> leaves nd' = 1)
       \<and> (popping \<longrightarrow> (\<exists>k v. item = Leaf k v \<and> k \<in> set (leaf_keys nd')))"
proof (induction "size nd" arbitrary: lv nd item popping nd' lv' rule: less_induct)
  case less
  obtain xs c where nd: "nd = ArrayR xs c" by (cases nd)
  let ?pos = "hash lv key"
  note run = less.prems(3) [unfolded nd]
  from run have inside: "?pos < length xs"
    by (auto simp: Let_def split: if_splits)
  from less.prems(1) nd have c: "c = int (leaves (ArrayR xs c))"
    and slots: "\<And>i. i < length xs \<Longrightarrow> well_formed_slot lv i (xs ! i)"
    by (auto simp: wf_iff)
  show ?case
  proof (cases "xs ! ?pos")
    case Empty
    with run inside show ?thesis by (simp add: Let_def)
  next
    case (Leaf k w)
    with run inside have res: "nd' = ArrayR (xs[?pos := Empty]) (c - 1)"
      "item = first_item (xs[?pos := Empty])" "popping = (c - 1 = 1)" "lv' = lv"
      by (auto simp: Let_def split: if_splits)
    have l: "leaves nd' + 1 = leaves nd"
      using leaves_update [OF inside, of Empty "c - 1" c] Leaf nd res(1) by simp
    have w: "well_formed lv nd'"
      unfolding res(1) by (rule wf_update [OF less.prems(1) [unfolded nd] inside])
        (use l c nd res(1) in auto)
    have sub: "set (leaf_keys nd') \<subseteq> set (leaf_keys nd)"
      using keys_update_subset [of xs ?pos Empty "c - 1" c] nd res(1) by auto
    have pop: "popping \<longleftrightarrow> leaves nd' = 1"
      using l c nd res(3) by auto
    have "\<exists>k v. item = Leaf k v \<and> k \<in> set (leaf_keys nd')" if popping
      using wf_single_leaf [OF w [unfolded res(1)]] pop that res(1,2) by simp
    with l w sub pop res(4) show ?thesis by simp
  next
    case (Inner tag child)
    from less.prems(2) nd inside Inner have tag: "tag \<noteq> key"
      and clean: "\<not> tag_on_path (lv + 1) key child"
      by (auto simp: Let_def)
    from slots [OF inside] Inner have w0: "well_formed (lv + 1) child" "2 \<le> leaves child"
      and k0: "\<And>k. k \<in> set (leaf_keys child) \<Longrightarrow> hash lv k = ?pos"
      by (auto simp: list_all_iff)
    have smaller: "size child < size nd"
      using size_child [of xs ?pos tag child c] inside Inner nd by simp
    obtain r child' lvc where rec: "del_loop (lv + 1) key child = (r, child', lvc)"
      by (cases "del_loop (lv + 1) key child") auto
    with run inside Inner tag obtain itemc popc where r: "r = Inr (itemc, popc)"
      by (cases r) (auto simp: Let_def)
    from less.hyps [OF smaller w0(1) clean rec [unfolded r]]
    have ch: "well_formed (lv + 1) child'" "leaves child' + 1 = leaves child"
      "set (leaf_keys child') \<subseteq> set (leaf_keys child)"
      "popc \<Longrightarrow> lvc = lv + 1" "popc \<longleftrightarrow> leaves child' = 1"
      "popc \<Longrightarrow> \<exists>k v. itemc = Leaf k v \<and> k \<in> set (leaf_keys child')"
      by auto
    show ?thesis
    proof (cases popc)
      case False
      with run inside Inner tag rec r have res: "nd' = ArrayR (xs[?pos := Inner tag child']) (c - 1)"
        "popping = False"
        by (auto simp: Let_def)
      have l: "leaves nd' + 1 = leaves nd"
        using leaves_update [OF inside, of "Inner tag child'" "c - 1" c] Inner nd res(1) ch(2)
        by simp
      from False ch(2,5) w0(2) have two: "2 \<le> leaves child'" by arith
      have "well_formed_slot lv ?pos (Inner tag child')"
        using ch(1,3) two k0 by (auto simp: list_all_iff)
      then have w: "well_formed lv nd'"
        unfolding res(1) by (rule wf_update [OF less.prems(1) [unfolded nd] inside])
          (use l c nd res(1) in auto)
      have sub: "set (leaf_keys nd') \<subseteq> set (leaf_keys nd)"
        using keys_update_subset [of xs ?pos "Inner tag child'" "c - 1" c]
          keys_nth_subset [OF inside, of c] ch(3) Inner nd res(1) by auto
      have "leaves child' \<le> leaves nd'"
        using leaves_nth_le [of ?pos "xs[?pos := Inner tag child']" "c - 1"] inside res(1) by simp
      with two have "leaves nd' \<noteq> 1" by arith
      with l w sub res(2) show ?thesis by simp
    next
      case True
      from ch(6) [OF True] obtain k v where item: "itemc = Leaf k v"
        and kin: "k \<in> set (leaf_keys child')" by auto
      from kin ch(3) k0 have hk: "hash lv k = ?pos" by auto
      from True ch(4) have lvc: "lvc = lv + 1" by simp
      from True run inside Inner tag rec r item lvc hk
      have res: "nd' = ArrayR (xs[?pos := Leaf k v]) (c - 1)" "item = Leaf k v"
        "popping = (c - 1 = 1)" "lv' = lv"
        by (auto simp: Let_def)
      from True ch(2,5) have "leaves child = 2" by simp
      then have l: "leaves nd' + 1 = leaves nd"
        using leaves_update [OF inside, of "Leaf k v" "c - 1" c] Inner nd res(1) by simp
      have "well_formed_slot lv ?pos (Leaf k v)" using hk by simp
      then have w: "well_formed lv nd'"
        unfolding res(1) by (rule wf_update [OF less.prems(1) [unfolded nd] inside])
          (use l c nd res(1) in auto)
      have sub: "set (leaf_keys nd') \<subseteq> set (leaf_keys nd)"
        using keys_update_subset [of xs ?pos "Leaf k v" "c - 1" c]
          keys_nth_subset [OF inside, of c] ch(3) kin Inner nd res(1) by auto
      have pop: "popping \<longleftrightarrow> leaves nd' = 1"
        using l c nd res(3) by auto
      have "k \<in> set (leaf_keys nd')"
        unfolding res(1) by (rule keys_update_mem [OF inside]) simp
      with l w sub pop res(2,4) show ?thesis by simp
    qed
  qed
qed


lemma wf_counted: "well_formed lv nd \<Longrightarrow> counted nd"
proof (induction "size nd" arbitrary: lv nd rule: less_induct)
  case less
  obtain xs c where nd: "nd = ArrayR xs c" by (cases nd)
  have "counted_slot s" if "s \<in> set xs" for s
  proof (cases s)
    case (Inner tag child)
    from that obtain i where i: "i < length xs" "xs ! i = s" by (auto simp: in_set_conv_nth)
    with less.prems nd Inner have "well_formed (lv + 1) child" by (auto simp: wf_iff)
    moreover have "size child < size nd"
      using size_child [of xs i tag child c] i Inner nd by simp
    ultimately show ?thesis using less.hyps Inner by simp
  qed simp_all
  with less.prems nd show ?case by (auto simp: wf_iff list_all_iff)
qed

lemma wf_init: "well_formed 0 (table iht_init)"
  by (simp add: iht_init_def new_ArrayR_def wf_iff)

text \<open>
  C9 as stated: after every completed set and delete, each node's counter is the number
  of its slots that are not \<open>None\<close>. After \<open>t["lin"] = 1; t["lim"] = 2\<close> the root
  has one slot in use, the pointer tagged \<open>"l"\<close>, and counter 2.
\<close>

theorem C9_counter_is_not_slot_count:
  "iht_after 3 [Set ''lin'' 1, Set ''lim'' 2] = Some lin_lim
   \<and> \<not> slots_counted (table lin_lim)
   \<and> occupancy (table lin_lim) = 2
   \<and> length (filter (\<lambda>s. s \<noteq> Empty) (array (table lin_lim))) = 1"
  by code_simp

text \<open>
  C9 as amended: on a well-formed trie (the empty table is one), after every completed
  set, and after every completed delete whose walk meets no pointer tagged with the key
  being deleted, the trie is well formed again and each node's counter is the number of
  leaves in that node's subtree.
\<close>

theorem C9_counter_is_leaves_of_subtree:
  "well_formed 0 (table t) \<Longrightarrow>
   setitem fuel key v t = Some (Inr (), t')
     \<or> (\<not> tag_on_path 0 key (table t) \<and> delitem key t = (Inr (), t')) \<Longrightarrow>
   well_formed 0 (table t') \<and> counted (table t')"
proof -
  assume w: "well_formed 0 (table t)"
  assume "setitem fuel key v t = Some (Inr (), t')
     \<or> (\<not> tag_on_path 0 key (table t) \<and> delitem key t = (Inr (), t'))"
  then have "well_formed 0 (table t')"
  proof
    assume "setitem fuel key v t = Some (Inr (), t')"
    then obtain r nd lv where run: "set_loop fuel 0 key v (table t) = Some (r, nd, lv)"
      and out: "(case r of Inl e \<Rightarrow> (Inl e, t\<lparr>table := nd, level := lv\<rparr>)
                 | Inr u \<Rightarrow> (Inr (), t\<lparr>table := nd, level := lv, count := count t + 1\<rparr>))
                = (Inr (), t')"
      by (auto simp: setitem_def)
    from out have "r = Inr ()" "table t' = nd" by (cases r; auto)+
    with set_loop_wf [OF w] run show ?thesis by simp
  next
    assume a: "\<not> tag_on_path 0 key (table t) \<and> delitem key t = (Inr (), t')"
    then obtain item popping lv where "del_loop 0 key (table t) = (Inr (item, popping), table t', lv)"
      by (auto simp: delitem_def split: prod.splits sum.splits)
    from del_loop_wf [OF w _ this] a show ?thesis by simp
  qed
  then show ?thesis by (simp add: wf_counted)
qed

theorem C9_counter_is_leaves_witness:
  "well_formed 0 (table iht_init)
   \<and> setitem 1 ''lin'' 1 iht_init
       = Some (Inr (), \<lparr>table = ArrayR ((replicate 27 Empty)[4 := Leaf ''lin'' 1]) 1, level = 0, count = 1\<rparr>)
   \<and> counted (table \<lparr>table = ArrayR ((replicate 27 Empty)[4 := Leaf ''lin'' 1]) 1, level = 0, count = 1\<rparr>)
   \<and> well_formed 0 (table lin_lim) \<and> counted (table lin_lim)
   \<and> \<not> tag_on_path 0 ''lin'' (table lin_lim)
   \<and> delitem ''lin'' lin_lim
       = (Inr (), \<lparr>table = ArrayR ((replicate 27 Empty)[4 := Leaf ''lim'' 2]) 1, level = 0, count = 1\<rparr>)
   \<and> counted (table \<lparr>table = ArrayR ((replicate 27 Empty)[4 := Leaf ''lim'' 2]) 1, level = 0, count = 1\<rparr>)"
proof -
  have s: "setitem 1 ''lin'' 1 iht_init
       = Some (Inr (), \<lparr>table = ArrayR ((replicate 27 Empty)[4 := Leaf ''lin'' 1]) 1, level = 0, count = 1\<rparr>)"
    by code_simp
  have w: "well_formed 0 (table lin_lim)" by code_simp
  have c: "counted (table lin_lim)" by code_simp
  have p: "\<not> tag_on_path 0 ''lin'' (table lin_lim)" by code_simp
  have d: "delitem ''lin'' lin_lim
       = (Inr (), \<lparr>table = ArrayR ((replicate 27 Empty)[4 := Leaf ''lim'' 2]) 1, level = 0, count = 1\<rparr>)"
    by code_simp
  note a = C9_counter_is_leaves_of_subtree [OF wf_init disjI1 [OF s], THEN conjunct2]
  note b = C9_counter_is_leaves_of_subtree [OF w disjI2 [OF conjI [OF p d]], THEN conjunct2]
  from wf_init s a w c p d b show ?thesis by blast
qed

subsection \<open>C10: a failed call leaves the table as it was\<close>

text \<open>
  C10. The claim: a call that fails leaves the table exactly as before the call; a delete
  of an absent key changes no counter before raising. With \<open>"ab"\<close> stored, the root has
  counter 1; \<open>del t["ac"]\<close> raises \<open>TypeError\<close> and leaves the root with counter 0 and
  \<open>level\<close> 1.
\<close>

theorem C10_failed_delete_changes_counter:
  "run_iht 2 [Set ''ab'' 1] iht_init
     = Some ([Returned],
         \<lparr>table = ArrayR ((replicate 27 Empty)[19 := Leaf ''ab'' 1]) 1, level = 0, count = 1\<rparr>)
   \<and> run_iht 2 [Set ''ab'' 1, Del ''ac''] iht_init
     = Some ([Returned, Raised TypeError],
         \<lparr>table = ArrayR ((replicate 27 Empty)[19 := Leaf ''ab'' 1]) 0, level = 1, count = 1\<rparr>)"
  by code_simp

end
